theory Spec2Isabelle
  imports Main "HOL-Library.Multiset" "HOL-Library.AList"
begin

section \<open>Strings as Python sees them\<close>

text \<open>
  Strings are character lists; the model is restricted to ASCII text, where Python's
  \<^verbatim>\<open>str.strip()\<close>, \<^verbatim>\<open>str.isspace()\<close> and the regular expression class
  \<^verbatim>\<open>\s\<close> agree on the whitespace characters: space, tab, newline, vertical tab,
  form feed, carriage return and the four separators 0x1C to 0x1F.
\<close>

definition is_space :: "char \<Rightarrow> bool" where
  "is_space c = (c \<in> set [CHR '' '', CHR 0x09, CHR 0x0A, CHR 0x0B, CHR 0x0C, CHR 0x0D,
                            CHR 0x1C, CHR 0x1D, CHR 0x1E, CHR 0x1F])"

definition strip :: "string \<Rightarrow> string" where
  "strip s = rev (dropWhile is_space (rev (dropWhile is_space s)))"

text \<open>\<^verbatim>\<open>str(n)\<close> for a non-negative integer: its decimal digits.\<close>

definition digit_char :: "nat \<Rightarrow> char" where
  "digit_char d = char_of (48 + d)"

fun str_nat :: "nat \<Rightarrow> string" where
  "str_nat n = (if n < 10 then [digit_char n] else str_nat (n div 10) @ [digit_char (n mod 10)])"

declare str_nat.simps [simp del]

text \<open>Reading decimal digits back: the value of a digit string.\<close>

definition digits_value :: "string \<Rightarrow> nat" where
  "digits_value s = foldl (\<lambda>a c. 10 * a + (of_char c - 48)) 0 s"

section \<open>The dispatch scheduler of main.py\<close>

subsection \<open>Data\<close>

text \<open>
  One row of the schedule CSV, as \<^verbatim>\<open>csv.DictReader\<close> yields it for a file with the
  eight columns of the flat record format. Every field is a string.
\<close>

record csv_row =
  r_datetime :: string
  r_time :: string
  r_account :: string
  r_title :: string
  r_body :: string
  r_kind :: string
  r_reply_to :: string
  r_community :: string

text \<open>
  The persisted forum setup (\<^verbatim>\<open>forum_setup.json\<close>): \<^verbatim>\<open>account_mapping\<close> and
  \<^verbatim>\<open>bot_tokens\<close> are dictionaries, \<^verbatim>\<open>bots\<close> is a dictionary whose iteration
  order matters in watch mode, hence an association list.
\<close>

record bot_info =
  b_id :: string
  b_community_slug :: "string option"

record forum_state =
  account_mapping :: "string \<rightharpoonup> string"
  bot_tokens :: "string \<rightharpoonup> string"
  bots :: "(string \<times> bot_info) list"

text \<open>
  The Publisher (\<^verbatim>\<open>ForumProvider\<close>) is an external collaborator. A call either raises
  \<^verbatim>\<open>ForumProviderError\<close> or returns the decoded JSON object of the response, a
  dictionary from field names to strings. What it answers is a parameter of the model;
  the first argument is the number of Publisher calls made before this one, so that the
  answers may change over time.
\<close>

datatype 'a outcome = ForumProviderError | Returned 'a

type_synonym json = "(string \<times> string) list"

record provider =
  submit_thread :: "nat \<Rightarrow> string \<Rightarrow> string option \<Rightarrow> string \<Rightarrow> string \<Rightarrow> json outcome"
  submit_reply :: "nat \<Rightarrow> string \<Rightarrow> string \<Rightarrow> string \<Rightarrow> string option \<Rightarrow> json outcome"

text \<open>A Publisher invocation as the scheduler issued it (keyword arguments in order).\<close>

datatype pubcall =
  Submit_thread string "string option" string string
| Submit_reply string string string "string option"

text \<open>
  The scheduler's runtime state: the ExecutionLedger \<^verbatim>\<open>executed_posts\<close> (a set of key
  strings), the ReplyIndex \<^verbatim>\<open>post_refs\<close> (a dictionary, kept as an association list
  with distinct keys because single-pass mode reads its size), and the trace of Publisher
  invocations, each tagged with the ledger key of the record it was made for.
\<close>

record sched =
  executed_posts :: "string set"
  post_refs :: "(string \<times> string) list"
  calls :: "(string \<times> pubcall) list"

text \<open>An exception that is not caught by the per-record handler and ends the process.\<close>

datatype exn = KeyError string

definition initial :: sched where
  "initial = \<lparr>executed_posts = {}, post_refs = [], calls = []\<rparr>"

subsection \<open>Helpers shared by both modes\<close>

text \<open>
  The test \<^verbatim>\<open>if not v\<close> on the result of \<^verbatim>\<open>d.get(k)\<close>: a missing key
  (\<^verbatim>\<open>None\<close>) and an empty string both fail it.
\<close>

definition truthy :: "string option \<Rightarrow> string option" where
  "truthy v = (case v of None \<Rightarrow> None | Some s \<Rightarrow> if s = [] then None else Some s)"

text \<open>\<^verbatim>\<open>reply_to.split(".")[0]\<close>\<close>

definition first_segment :: "string \<Rightarrow> string" where
  "first_segment s = takeWhile (\<lambda>c. c \<noteq> CHR ''.'') s"

definition mark :: "string \<Rightarrow> sched \<Rightarrow> sched" where
  "mark post_key w = w\<lparr>executed_posts := insert post_key (executed_posts w)\<rparr>"

definition record_call :: "string \<Rightarrow> pubcall \<Rightarrow> sched \<Rightarrow> sched" where
  "record_call post_key c w = w\<lparr>calls := calls w @ [(post_key, c)]\<rparr>"

definition bind_ref :: "string \<Rightarrow> string \<Rightarrow> sched \<Rightarrow> sched" where
  "bind_ref k v w = w\<lparr>post_refs := AList.update k v (post_refs w)\<rparr>"

text \<open>\<^verbatim>\<open>f"{idx}:{row_date}:{row_time}"\<close>\<close>

definition post_key_of :: "nat \<Rightarrow> string \<Rightarrow> string \<Rightarrow> string" where
  "post_key_of idx row_date row_time = str_nat idx @ '':'' @ row_date @ '':'' @ row_time"

subsection \<open>Continuous mode: \<^verbatim>\<open>run_watch\<close>\<close>

text \<open>
  Lines 386 to 390: the community slug of the row, or that of the first bot of the setup
  whose id is the posting bot's.
\<close>

definition watch_slug :: "forum_state \<Rightarrow> string \<Rightarrow> string \<Rightarrow> string option" where
  "watch_slug st bot_id community_slug =
     (if community_slug \<noteq> [] then Some community_slug
      else case find (\<lambda>kb. b_id (snd kb) = bot_id) (bots st) of
             None \<Rightarrow> Some community_slug
           | Some kb \<Rightarrow> b_community_slug (snd kb))"

text \<open>Lines 393 to 413, the branch \<^verbatim>\<open>kind == "self"\<close> inside the \<^verbatim>\<open>try\<close>.\<close>

definition watch_self ::
  "provider \<Rightarrow> sched \<Rightarrow> nat \<Rightarrow> string \<Rightarrow> string \<Rightarrow> string option \<Rightarrow> string \<Rightarrow> string
     \<Rightarrow> exn option \<times> sched" where
  "watch_self pv w idx post_key bot_id slug title body =
     (let w1 = record_call post_key (Submit_thread bot_id slug title body) w in
      case submit_thread pv (length (calls w)) bot_id slug title body of
        ForumProviderError \<Rightarrow> (None, mark post_key w1)
      | Returned result \<Rightarrow>
          (case map_of result ''threadId'' of
             None \<Rightarrow> (Some (KeyError ''threadId''), w1)
           | Some thread_id \<Rightarrow>
               (let w2 = bind_ref (str_nat idx) thread_id w1 in
                case map_of result ''postId'' of
                  None \<Rightarrow> (Some (KeyError ''postId''), w2)
                | Some _ \<Rightarrow> (None, mark post_key w2))))"

text \<open>Lines 415 to 445, the branch \<^verbatim>\<open>kind == "comment"\<close>.\<close>

definition watch_comment ::
  "provider \<Rightarrow> sched \<Rightarrow> string \<Rightarrow> string \<Rightarrow> string \<Rightarrow> string \<Rightarrow> exn option \<times> sched" where
  "watch_comment pv w post_key bot_id body reply_to =
     (let thread_ref = first_segment reply_to;
          thread_id = map_of (post_refs w) thread_ref;
          parent_id = (if CHR ''.'' \<in> set reply_to then map_of (post_refs w) reply_to else None)
      in case truthy thread_id of
           None \<Rightarrow> (None, mark post_key w)
         | Some tid \<Rightarrow>
             (let w1 = record_call post_key (Submit_reply bot_id tid body parent_id) w in
              case submit_reply pv (length (calls w)) bot_id tid body parent_id of
                ForumProviderError \<Rightarrow> (None, mark post_key w1)
              | Returned result \<Rightarrow>
                  (case map_of result ''postId'' of
                     None \<Rightarrow> (Some (KeyError ''postId''), w1)
                   | Some post_id \<Rightarrow> (None, mark post_key (bind_ref reply_to post_id w1)))))"

text \<open>
  Lines 361 to 458: the body of the loop over the due posts. The result is the new state
  and the exception that escaped, if one did.
\<close>

definition process_post ::
  "forum_state \<Rightarrow> provider \<Rightarrow> sched \<Rightarrow> nat \<times> csv_row \<times> string \<Rightarrow> exn option \<times> sched" where
  "process_post st pv w p =
     (case p of (idx, row, post_key) \<Rightarrow>
        let account_name = strip (r_account row);
            title = strip (r_title row);
            body = strip (r_body row);
            kind = strip (r_kind row);
            reply_to = strip (r_reply_to row);
            community_slug = strip (r_community row)
        in case truthy (account_mapping st account_name) of
             None \<Rightarrow> (None, mark post_key w)
           | Some bot_id \<Rightarrow>
               (case truthy (bot_tokens st bot_id) of
                  None \<Rightarrow> (None, mark post_key w)
                | Some bot_token \<Rightarrow>
                    (let slug = watch_slug st bot_id community_slug in
                     if kind = ''self'' then watch_self pv w idx post_key bot_id slug title body
                     else if kind = ''comment'' then watch_comment pv w post_key bot_id body reply_to
                     else (None, mark post_key w))))"

text \<open>The loop \<^verbatim>\<open>for idx, row, post_key in due_posts\<close>; an escaping exception ends it.\<close>

fun process_batch ::
  "forum_state \<Rightarrow> provider \<Rightarrow> sched \<Rightarrow> (nat \<times> csv_row \<times> string) list \<Rightarrow> exn option \<times> sched" where
  "process_batch st pv w [] = (None, w)"
| "process_batch st pv w (p # ps) =
     (case process_post st pv w p of
        (Some e, w') \<Rightarrow> (Some e, w')
      | (None, w') \<Rightarrow> process_batch st pv w' ps)"

text \<open>
  Lines 344 to 353: the due set of a tick; \<open>due_scan\<close> is the loop over
  \<^verbatim>\<open>enumerate(rows)\<close>, started at index 0.
\<close>

fun due_scan ::
  "string set \<Rightarrow> string \<Rightarrow> string \<Rightarrow> nat \<Rightarrow> csv_row list \<Rightarrow> (nat \<times> csv_row \<times> string) list" where
  "due_scan executed current_date current_time idx [] = []"
| "due_scan executed current_date current_time idx (row # rows) =
     (let row_date = strip (r_datetime row);
          row_time = strip (r_time row);
          post_key = post_key_of idx row_date row_time
      in (if row_date = current_date \<and> row_time = current_time \<and> post_key \<notin> executed
          then [(idx, row, post_key)] else [])
         @ due_scan executed current_date current_time (Suc idx) rows)"

definition due_posts ::
  "string set \<Rightarrow> string \<Rightarrow> string \<Rightarrow> csv_row list \<Rightarrow> (nat \<times> csv_row \<times> string) list" where
  "due_posts executed current_date current_time rows =
     due_scan executed current_date current_time 0 rows"

text \<open>
  \<^verbatim>\<open>random.shuffle\<close> is the Fisher-Yates loop of the standard library:
  for \<open>i\<close> from \<open>len(x) - 1\<close> down to 1, draw \<open>j\<close> below \<open>i + 1\<close> and swap \<open>x[i]\<close>
  with \<open>x[j]\<close>. The random draws are an input; a missing draw counts as 0.
\<close>

fun shuffle_from :: "nat \<Rightarrow> nat list \<Rightarrow> 'a list \<Rightarrow> 'a list" where
  "shuffle_from 0 rnd x = x"
| "shuffle_from (Suc i) rnd x =
     (let j = (case rnd of [] \<Rightarrow> 0 | r # _ \<Rightarrow> r mod (Suc i + 1))
      in shuffle_from i (tl rnd) (x[Suc i := x ! j, j := x ! Suc i]))"

definition shuffle :: "nat list \<Rightarrow> 'a list \<Rightarrow> 'a list" where
  "shuffle rnd x = shuffle_from (length x - 1) rnd x"

text \<open>
  What one iteration of \<^verbatim>\<open>while True\<close> reads from its environment: the clock, the
  schedule file as reloaded at this tick, and the random draws of the shuffle.
\<close>

record tick =
  now_date :: string
  now_time :: string
  file_rows :: "csv_row list"
  draws :: "nat list"

definition watch_tick :: "forum_state \<Rightarrow> provider \<Rightarrow> sched \<Rightarrow> tick \<Rightarrow> exn option \<times> sched" where
  "watch_tick st pv w t =
     process_batch st pv w
       (shuffle (draws t) (due_posts (executed_posts w) (now_date t) (now_time t) (file_rows t)))"

text \<open>
  The loop runs until it is cancelled or an exception escapes; a run is the list of ticks
  it went through.
\<close>

fun watch_loop :: "forum_state \<Rightarrow> provider \<Rightarrow> sched \<Rightarrow> tick list \<Rightarrow> exn option \<times> sched" where
  "watch_loop st pv w [] = (None, w)"
| "watch_loop st pv w (t # ts) =
     (case watch_tick st pv w t of
        (Some e, w') \<Rightarrow> (Some e, w')
      | (None, w') \<Rightarrow> watch_loop st pv w' ts)"

definition run_watch :: "forum_state \<Rightarrow> provider \<Rightarrow> tick list \<Rightarrow> exn option \<times> sched" where
  "run_watch st pv ticks =
     (if bots st = [] then (None, initial) else watch_loop st pv initial ticks)"

subsection \<open>Single-pass mode: \<^verbatim>\<open>run_schedule\<close>\<close>

text \<open>
  Single-pass mode keeps no ledger: its state is the ReplyIndex and the trace of Publisher
  invocations.
\<close>

record pass =
  p_post_refs :: "(string \<times> string) list"
  p_calls :: "pubcall list"

definition pass_initial :: pass where
  "pass_initial = \<lparr>p_post_refs = [], p_calls = []\<rparr>"

text \<open>Lines 228 to 232: the default community is that of the bot \<^verbatim>\<open>community_0_bot_0\<close>.\<close>

definition schedule_slug :: "forum_state \<Rightarrow> string \<Rightarrow> string option" where
  "schedule_slug st community_slug =
     (if community_slug \<noteq> [] then Some community_slug
      else case map_of (bots st) ''community_0_bot_0'' of
             None \<Rightarrow> Some community_slug
           | Some info \<Rightarrow> b_community_slug info)"

text \<open>Lines 235 to 255; the reference key of a thread is \<^verbatim>\<open>str(len(post_refs))\<close>.\<close>

definition schedule_self ::
  "provider \<Rightarrow> pass \<Rightarrow> string \<Rightarrow> string option \<Rightarrow> string \<Rightarrow> string \<Rightarrow> exn option \<times> pass" where
  "schedule_self pv w bot_id slug title body =
     (let w1 = w\<lparr>p_calls := p_calls w @ [Submit_thread bot_id slug title body]\<rparr> in
      case submit_thread pv (length (p_calls w)) bot_id slug title body of
        ForumProviderError \<Rightarrow> (None, w1)
      | Returned result \<Rightarrow>
          (let ref_key = str_nat (length (p_post_refs w)) in
           case map_of result ''threadId'' of
             None \<Rightarrow> (Some (KeyError ''threadId''), w1)
           | Some thread_id \<Rightarrow>
               (let w2 = w1\<lparr>p_post_refs := AList.update ref_key thread_id (p_post_refs w1)\<rparr> in
                case map_of result ''postId'' of
                  None \<Rightarrow> (Some (KeyError ''postId''), w2)
                | Some _ \<Rightarrow> (None, w2))))"

text \<open>Lines 257 to 285.\<close>

definition schedule_comment ::
  "provider \<Rightarrow> pass \<Rightarrow> string \<Rightarrow> string \<Rightarrow> string \<Rightarrow> exn option \<times> pass" where
  "schedule_comment pv w bot_id body reply_to =
     (let thread_id = map_of (p_post_refs w) (first_segment reply_to);
          parent_id = (if CHR ''.'' \<in> set reply_to then map_of (p_post_refs w) reply_to else None)
      in case truthy thread_id of
           None \<Rightarrow> (None, w)
         | Some tid \<Rightarrow>
             (let w1 = w\<lparr>p_calls := p_calls w @ [Submit_reply bot_id tid body parent_id]\<rparr> in
              case submit_reply pv (length (p_calls w)) bot_id tid body parent_id of
                ForumProviderError \<Rightarrow> (None, w1)
              | Returned result \<Rightarrow>
                  (case map_of result ''postId'' of
                     None \<Rightarrow> (Some (KeyError ''postId''), w1)
                   | Some post_id \<Rightarrow>
                       (None, w1\<lparr>p_post_refs := AList.update reply_to post_id (p_post_refs w1)\<rparr>))))"

text \<open>Lines 201 to 291: the body of the loop over the rows of the file.\<close>

definition schedule_row ::
  "forum_state \<Rightarrow> provider \<Rightarrow> string \<Rightarrow> pass \<Rightarrow> csv_row \<Rightarrow> exn option \<times> pass" where
  "schedule_row st pv today w row =
     (if r_datetime row \<noteq> today then (None, w)
      else
        let account_name = strip (r_account row);
            title = strip (r_title row);
            body = strip (r_body row);
            kind = strip (r_kind row);
            reply_to = strip (r_reply_to row);
            community_slug = strip (r_community row)
        in case truthy (account_mapping st account_name) of
             None \<Rightarrow> (None, w)
           | Some bot_id \<Rightarrow>
               (case truthy (bot_tokens st bot_id) of
                  None \<Rightarrow> (None, w)
                | Some bot_token \<Rightarrow>
                    (let slug = schedule_slug st community_slug in
                     if kind = ''self'' then schedule_self pv w bot_id slug title body
                     else if kind = ''comment'' then schedule_comment pv w bot_id body reply_to
                     else (None, w))))"

fun schedule_loop ::
  "forum_state \<Rightarrow> provider \<Rightarrow> string \<Rightarrow> pass \<Rightarrow> csv_row list \<Rightarrow> exn option \<times> pass" where
  "schedule_loop st pv today w [] = (None, w)"
| "schedule_loop st pv today w (row # rows) =
     (case schedule_row st pv today w row of
        (Some e, w') \<Rightarrow> (Some e, w')
      | (None, w') \<Rightarrow> schedule_loop st pv today w' rows)"

definition run_schedule :: "forum_state \<Rightarrow> provider \<Rightarrow> string \<Rightarrow> csv_row list \<Rightarrow> exn option \<times> pass" where
  "run_schedule st pv today rows =
     (if bots st = [] then (None, pass_initial) else schedule_loop st pv today pass_initial rows)"

subsection \<open>Observations on a run\<close>

text \<open>
  The ledger key of a due post, the Publisher invocations made for a key, and the
  invariant that ties the trace to the ledger: every invocation was made for a distinct
  key, and that key is in the ledger.
\<close>

definition key_of :: "nat \<times> csv_row \<times> string \<Rightarrow> string" where
  "key_of p = snd (snd p)"

definition calls_for :: "string \<Rightarrow> sched \<Rightarrow> (string \<times> pubcall) list" where
  "calls_for k w = filter (\<lambda>c. fst c = k) (calls w)"

definition ledger_ok :: "sched \<Rightarrow> bool" where
  "ledger_ok w = (distinct (map fst (calls w)) \<and> set (map fst (calls w)) \<subseteq> executed_posts w)"



section \<open>The outline parser of convert_schedule.py\<close>

subsection \<open>Text helpers\<close>

text \<open>
  \<^verbatim>\<open>s.split(sep)\<close> for a one-character separator: the result is never empty, and an
  empty string gives one empty piece.
\<close>

fun split_on :: "char \<Rightarrow> string \<Rightarrow> string list" where
  "split_on sep [] = [[]]"
| "split_on sep (c # cs) =
     (if c = sep then [] # split_on sep cs
      else case split_on sep cs of
             [] \<Rightarrow> [[c]]
           | piece # pieces \<Rightarrow> (c # piece) # pieces)"

text \<open>\<^verbatim>\<open>sep.join(pieces)\<close>\<close>

fun join :: "string \<Rightarrow> string list \<Rightarrow> string" where
  "join sep [] = []"
| "join sep [piece] = piece"
| "join sep (piece # pieces) = piece @ sep @ join sep pieces"

definition is_digit :: "char \<Rightarrow> bool" where
  "is_digit c = (c \<in> set ''0123456789'')"

text \<open>\<^verbatim>\<open>sub in s\<close>\<close>

fun contains :: "string \<Rightarrow> string \<Rightarrow> bool" where
  "contains sub [] = (sub = [])"
| "contains sub (c # cs) = (take (length sub) (c # cs) = sub \<or> contains sub cs)"

text \<open>\<^verbatim>\<open>f"{n:02d}"\<close>\<close>

definition pad2 :: "nat \<Rightarrow> string" where
  "pad2 n = (if n < 10 then CHR ''0'' # str_nat n else str_nat n)"

subsection \<open>The regular expressions\<close>

text \<open>
  Each pattern is anchored at the start of the line and is applied to a line without a
  newline, so it is modelled by the function that reads the line from the left as the
  backtracking matcher does. \<^verbatim>\<open>\d\<close> is an ASCII digit and \<^verbatim>\<open>\s\<close> the whitespace of
  \<open>is_space\<close>.

  The hierarchical id \<^verbatim>\<open>\d+(?:\.\d+)*\<close>, matched greedily: \<open>id_tail\<close> reads the
  repetition, \<open>parse_id\<close> the whole id; both return what is left of the line. A shorter
  id never helps the patterns below, because what follows an id in them is an optional
  dot and then a whitespace character.
\<close>

function id_tail :: "string \<Rightarrow> string \<times> string" where
  "id_tail s =
     (case s of
        dot # c # cs \<Rightarrow>
          if dot = CHR ''.'' \<and> is_digit c then
            (case id_tail (dropWhile is_digit cs) of
               (segments, rest) \<Rightarrow> (dot # c # takeWhile is_digit cs @ segments, rest))
          else ([], s)
      | _ \<Rightarrow> ([], s))"
  by pat_completeness auto
termination
  by (relation "measure length") (auto simp: less_Suc_eq_le length_dropWhile_le le_SucI)

declare id_tail.simps [simp del]

definition parse_id :: "string \<Rightarrow> (string \<times> string) option" where
  "parse_id s =
     (if takeWhile is_digit s = [] then None
      else case id_tail (dropWhile is_digit s) of
             (segments, rest) \<Rightarrow> Some (takeWhile is_digit s @ segments, rest))"

text \<open>The optional dot \<^verbatim>\<open>\.?\<close> after an id.\<close>

definition skip_dot :: "string \<Rightarrow> string" where
  "skip_dot s = (case s of c # cs \<Rightarrow> if c = CHR ''.'' then cs else s | [] \<Rightarrow> s)"

text \<open>
  \<^verbatim>\<open>^Day\s+(\d+):\s*(.+)$\<close> with \<^verbatim>\<open>re.IGNORECASE\<close>: the result is the pair of
  groups. When only whitespace follows the colon, \<^verbatim>\<open>\s*\<close> gives its last character
  back to \<^verbatim>\<open>.+\<close>.
\<close>

definition is_day_word :: "string \<Rightarrow> bool" where
  "is_day_word s =
     (case s of
        d # a # y # _ \<Rightarrow> d \<in> set ''Dd'' \<and> a \<in> set ''Aa'' \<and> y \<in> set ''Yy''
      | _ \<Rightarrow> False)"

definition day_match :: "string \<Rightarrow> (string \<times> string) option" where
  "day_match line =
     (if \<not> is_day_word line then None
      else
        let after_day = drop 3 line;
            after_space = dropWhile is_space after_day;
            digits = takeWhile is_digit after_space
        in if takeWhile is_space after_day = [] \<or> digits = [] then None
           else case dropWhile is_digit after_space of
                  [] \<Rightarrow> None
                | c # after_colon \<Rightarrow>
                    if c \<noteq> CHR '':'' then None
                    else if dropWhile is_space after_colon \<noteq> []
                      then Some (digits, dropWhile is_space after_colon)
                    else if after_colon \<noteq> [] then Some (digits, [last after_colon])
                    else None)"

text \<open>\<^verbatim>\<open>^Day\s+\d+:\<close> with \<^verbatim>\<open>re.IGNORECASE\<close>, the test of the lookahead.\<close>

definition day_start :: "string \<Rightarrow> bool" where
  "day_start line =
     (is_day_word line \<and>
      (let after_day = drop 3 line;
           after_space = dropWhile is_space after_day
       in takeWhile is_space after_day \<noteq> [] \<and> takeWhile is_digit after_space \<noteq> [] \<and>
          take 1 (dropWhile is_digit after_space) = '':''))"

text \<open>
  \<^verbatim>\<open>^(\d+(?:\.\d+)*)?\.?\t(.+?)\t(.*)$\<close>: the id group is optional (\<^verbatim>\<open>None\<close> when it
  did not take part), the account is the shortest non-empty text up to a tab.
\<close>

definition tab :: char where
  "tab = CHR 0x09"

definition tab_fields :: "string \<Rightarrow> (string \<times> string) option" where
  "tab_fields s =
     (case s of
        [] \<Rightarrow> None
      | c # cs \<Rightarrow>
          (case dropWhile (\<lambda>x. x \<noteq> tab) cs of
             [] \<Rightarrow> None
           | _ # content \<Rightarrow> Some (c # takeWhile (\<lambda>x. x \<noteq> tab) cs, content)))"

definition row_match_tab :: "string \<Rightarrow> (string option \<times> string \<times> string) option" where
  "row_match_tab line =
     (let (group1, after_id) = (case parse_id line of
                                  None \<Rightarrow> (None, line)
                                | Some (row_id, rest) \<Rightarrow> (Some row_id, rest))
      in case skip_dot after_id of
           [] \<Rightarrow> None
         | c # rest \<Rightarrow>
             if c \<noteq> tab then None
             else map_option (\<lambda>(account, content). (group1, account, content)) (tab_fields rest))"

text \<open>
  \<^verbatim>\<open>^(\d+(?:\.\d+)*)\.?\s+(.+?)\s{2,}(.*)$\<close>, the fallback. \<open>find_gap\<close> is the lazy
  account group: the shortest non-empty text that two whitespace characters follow; the
  greedy \<^verbatim>\<open>\s{2,}\<close> then takes the whole run. \<open>first_gap\<close> is the backtracking of the
  greedy \<^verbatim>\<open>\s+\<close>: it tries to keep \<open>n\<close>, then \<open>n - 1\<close>, down to one of the whitespace
  characters that follow the id.
\<close>

fun find_gap :: "string \<Rightarrow> (string \<times> string) option" where
  "find_gap [] = None"
| "find_gap (c # cs) =
     (if length (takeWhile is_space cs) \<ge> 2 then Some ([c], dropWhile is_space cs)
      else map_option (\<lambda>(account, content). (c # account, content)) (find_gap cs))"

fun first_gap :: "nat \<Rightarrow> string \<Rightarrow> (string \<times> string) option" where
  "first_gap 0 s = None"
| "first_gap (Suc n) s =
     (case find_gap (drop (Suc n) s) of
        Some found \<Rightarrow> Some found
      | None \<Rightarrow> first_gap n s)"

definition row_match_spaces :: "string \<Rightarrow> (string option \<times> string \<times> string) option" where
  "row_match_spaces line =
     (case parse_id line of
        None \<Rightarrow> None
      | Some (row_id, rest) \<Rightarrow>
          map_option (\<lambda>(account, content). (Some row_id, account, content))
            (first_gap (length (takeWhile is_space (skip_dot rest))) (skip_dot rest)))"

text \<open>Lines 78 to 81: the tab pattern, and the fallback when it does not match.\<close>

definition row_match :: "string \<Rightarrow> (string option \<times> string \<times> string) option" where
  "row_match line =
     (case row_match_tab line of
        Some groups \<Rightarrow> Some groups
      | None \<Rightarrow> row_match_spaces line)"

text \<open>Line 68: \<^verbatim>\<open>line.startswith("ID") and "Bot" in line\<close>\<close>

definition is_table_header :: "string \<Rightarrow> bool" where
  "is_table_header line = (take 2 line = ''ID'' \<and> contains ''Bot'' line)"

text \<open>
  Lines 93 to 96, the test that ends a multi-line body, on the raw next line:
  \<^verbatim>\<open>^\d+(?:\.\d+)*\.?\t\<close>, a day header, \<^verbatim>\<open>^ID\t\<close>, or a blank line.
\<close>

definition starts_tab_row :: "string \<Rightarrow> bool" where
  "starts_tab_row next_line =
     (case parse_id next_line of
        None \<Rightarrow> False
      | Some (row_id, rest) \<Rightarrow> take 1 (skip_dot rest) = [tab])"

definition ends_body :: "string \<Rightarrow> bool" where
  "ends_body next_line =
     (starts_tab_row next_line \<or> day_start next_line \<or> take 3 next_line = [CHR ''I'', CHR ''D'', tab]
      \<or> strip next_line = [])"

subsection \<open>Rows\<close>

text \<open>
  A parsed row: the eight columns of the CSV and the \<^verbatim>\<open>row_id\<close> that
  \<^verbatim>\<open>convert_file\<close> deletes before writing.
\<close>

record parsed_row = csv_row +
  row_id :: string

text \<open>Lines 103 to 105.\<close>

definition time_str :: "nat \<Rightarrow> string" where
  "time_str minute_offset = pad2 (10 + minute_offset div 60) @ '':'' @ pad2 (minute_offset mod 60)"

text \<open>Lines 109 to 124.\<close>

definition kind_of :: "string \<Rightarrow> string" where
  "kind_of rid = (if rid = ''0'' then ''self'' else ''comment'')"

definition reply_to_of :: "string \<Rightarrow> string" where
  "reply_to_of rid =
     (if rid = ''0'' then ''''
      else let parts = split_on CHR ''.'' rid
           in if length parts = 1 then ''0'' else join ''.'' (butlast parts))"

text \<open>Lines 127 to 130: \<^verbatim>\<open>re.sub\<close> removes every occurrence of the placeholder, left to right.\<close>

definition placeholder :: string where
  "placeholder = ''/LLM generated sentence/''"

function remove_placeholder :: "string \<Rightarrow> string" where
  "remove_placeholder s =
     (if s = [] then []
      else if take 24 s = placeholder then remove_placeholder (drop 24 s)
      else hd s # remove_placeholder (tl s))"
  by pat_completeness auto
termination
  by (relation "measure length") auto

declare remove_placeholder.simps [simp del]

definition clean :: "string \<Rightarrow> string" where
  "clean content = strip (remove_placeholder (strip content))"

subsection \<open>The loop\<close>

text \<open>
  The variables of \<^verbatim>\<open>parse_schedule_text\<close> that change in the loop (\<open>out_rows\<close> is
  the list \<^verbatim>\<open>rows\<close>). The date is kept as the string that \<^verbatim>\<open>strftime\<close> gives for it.
\<close>

record pstate =
  current_title :: string
  current_date :: string
  minute_offset :: nat
  out_rows :: "parsed_row list"

text \<open>
  Dates are computed by the \<^verbatim>\<open>datetime\<close> library and are a parameter: \<open>start\<close> is
  the start date as \<^verbatim>\<open>strftime("%Y-%m-%d")\<close> prints it, and \<open>date_of digits\<close> is the
  printed date of the day whose header carries these digits, or \<open>None\<close> when
  \<^verbatim>\<open>int\<close> or the date arithmetic raises (a date beyond the year 9999), which ends the
  parser.
\<close>

record calendar =
  start :: string
  date_of :: "string \<Rightarrow> string option"

datatype parse_error = DateError

text \<open>Line 84: \<^verbatim>\<open>row_match.group(1) or "0"\<close>\<close>

definition row_id_of :: "string option \<Rightarrow> string" where
  "row_id_of group1 = (case group1 of None \<Rightarrow> ''0'' | Some g \<Rightarrow> if g = [] then ''0'' else g)"

text \<open>
  Lines 86 to 99: the content group, stripped, and every continuation line appended to it,
  stripped, after one space.
\<close>

definition joined_content :: "string \<Rightarrow> string list \<Rightarrow> string" where
  "joined_content group3 continuation =
     foldl (\<lambda>content next_line. content @ '' '' @ strip next_line) (strip group3) continuation"

text \<open>
  Lines 84 to 147 for one recognised content line with its continuation lines: the
  counter is advanced, and the row is appended unless it is a comment with an empty body.
\<close>

definition handle_row ::
  "string \<Rightarrow> pstate \<Rightarrow> string option \<times> string \<times> string \<Rightarrow> string list \<Rightarrow> pstate" where
  "handle_row community_slug st groups continuation =
     (case groups of (group1, group2, group3) \<Rightarrow>
        let rid = row_id_of group1;
            account = strip group2;
            content = joined_content group3 continuation;
            time = time_str (minute_offset st);
            st1 = st\<lparr>minute_offset := minute_offset st + 5\<rparr>;
            kind = kind_of rid;
            reply_to = reply_to_of rid;
            body = clean content
        in if body = [] \<and> kind \<noteq> ''self'' then st1
           else st1\<lparr>out_rows := out_rows st1 @
                  [\<lparr>r_datetime = current_date st, r_time = time, r_account = account,
                    r_title = (if kind = ''self'' then current_title st else ''''),
                    r_body = body, r_kind = kind, r_reply_to = reply_to,
                    r_community = community_slug, row_id = rid\<rparr>]\<rparr>)"

text \<open>The \<^verbatim>\<open>while i < len(lines)\<close> loop, on the lines from \<open>i\<close> on.\<close>

function parse_lines ::
  "calendar \<Rightarrow> string \<Rightarrow> pstate \<Rightarrow> string list \<Rightarrow> parse_error + pstate" where
  "parse_lines cal community_slug st [] = Inr st"
| "parse_lines cal community_slug st (raw # later) =
     (let line = strip raw in
      if line = [] then parse_lines cal community_slug st later
      else case day_match line of
        Some (digits, title) \<Rightarrow>
          (case date_of cal digits of
             None \<Rightarrow> Inl DateError
           | Some date \<Rightarrow>
               parse_lines cal community_slug
                 (st\<lparr>current_title := strip title, current_date := date, minute_offset := 0\<rparr>) later)
      | None \<Rightarrow>
          if is_table_header line then parse_lines cal community_slug st later
          else case row_match line of
            None \<Rightarrow> parse_lines cal community_slug st later
          | Some groups \<Rightarrow>
              parse_lines cal community_slug
                (handle_row community_slug st groups (takeWhile (\<lambda>l. \<not> ends_body l) later))
                (dropWhile (\<lambda>l. \<not> ends_body l) later))"
  by pat_completeness auto
termination
  by (relation "measure (\<lambda>(cal, slug, st, ls). length ls)")
     (auto simp: less_Suc_eq_le length_dropWhile_le)

text \<open>Lines 39 to 46 and 151.\<close>

definition parse_schedule_text :: "calendar \<Rightarrow> string \<Rightarrow> string \<Rightarrow> parse_error + parsed_row list" where
  "parse_schedule_text cal text_content community_slug =
     (case parse_lines cal community_slug
             \<lparr>current_title = '''', current_date = start cal, minute_offset = 0, out_rows = []\<rparr>
             (split_on CHR 0x0A (strip text_content)) of
        Inl e \<Rightarrow> Inl e
      | Inr st \<Rightarrow> Inr (out_rows st))"

subsection \<open>Reading the outline without building rows\<close>

text \<open>
  A line that the loop takes for the content row with the given groups: it is not blank,
  not a day header and not a table header, and one of the two row patterns matches it.
\<close>

definition reads_as :: "string \<Rightarrow> string option \<times> string \<times> string \<Rightarrow> bool" where
  "reads_as raw groups =
     (strip raw \<noteq> [] \<and> day_match (strip raw) = None \<and> \<not> is_table_header (strip raw) \<and>
      row_match (strip raw) = Some groups)"

text \<open>
  The positions of the emitted rows, told from the text alone: \<open>slots seen ls\<close> walks
  the lines as the loop does, counts in \<open>seen\<close> the content rows recognised since the
  last day header, whether they are emitted or dropped, and lists the count at each row
  that is emitted.
\<close>

function slots :: "nat \<Rightarrow> string list \<Rightarrow> nat list" where
  "slots seen [] = []"
| "slots seen (raw # later) =
     (let line = strip raw in
      if line = [] then slots seen later
      else case day_match line of
        Some header \<Rightarrow> slots 0 later
      | None \<Rightarrow>
          if is_table_header line then slots seen later
          else case row_match line of
            None \<Rightarrow> slots seen later
          | Some (group1, group2, group3) \<Rightarrow>
              (if clean (joined_content group3 (takeWhile (\<lambda>l. \<not> ends_body l) later)) = []
                  \<and> kind_of (row_id_of group1) \<noteq> ''self''
               then [] else [seen])
              @ slots (Suc seen) (dropWhile (\<lambda>l. \<not> ends_body l) later))"
  by pat_completeness auto
termination
  by (relation "measure (\<lambda>(seen, ls). length ls)")
     (auto simp: less_Suc_eq_le length_dropWhile_le)

text \<open>The invariant of the output rows: no comment has an empty body.\<close>

definition comments_have_body :: "parsed_row list \<Rightarrow> bool" where
  "comments_have_body rs = (\<forall>r \<in> set rs. r_kind r = ''comment'' \<longrightarrow> r_body r \<noteq> [])"

section \<open>Concrete inputs\<close>

text \<open>
  A forum setup with three personas (the third has no token), a Publisher that answers
  every call with fresh identifiers numbered by the call, and a one-day schedule: the
  thread, a top-level comment and a nested reply.
\<close>


definition demo_state :: forum_state where
  "demo_state =
     \<lparr>account_mapping = map_of [(''Researchers'', ''b0''), (''Alice'', ''b1''), (''Bob'', ''b2'')],
      bot_tokens = map_of [(''b0'', ''tok0''), (''b1'', ''tok1'')],
      bots = [(''community_0_bot_0'', \<lparr>b_id = ''b0'', b_community_slug = Some ''town''\<rparr>),
              (''community_0_bot_1'', \<lparr>b_id = ''b1'', b_community_slug = Some ''town''\<rparr>),
              (''community_0_bot_2'', \<lparr>b_id = ''b2'', b_community_slug = Some ''town''\<rparr>)]\<rparr>"

definition demo_provider :: provider where
  "demo_provider =
     \<lparr>submit_thread = (\<lambda>n bot_id slug title body.
         Returned [(''threadId'', ''T'' @ str_nat n), (''postId'', ''P'' @ str_nat n)]),
      submit_reply = (\<lambda>n bot_id thread_id body parent.
         Returned [(''postId'', ''P'' @ str_nat n)])\<rparr>"

definition demo_row :: "string \<Rightarrow> string \<Rightarrow> string \<Rightarrow> string \<Rightarrow> string \<Rightarrow> string \<Rightarrow> string \<Rightarrow> csv_row" where
  "demo_row d t account title body kind reply_to =
     \<lparr>r_datetime = d, r_time = t, r_account = account, r_title = title, r_body = body,
      r_kind = kind, r_reply_to = reply_to, r_community = ''town''\<rparr>"

definition demo_rows :: "csv_row list" where
  "demo_rows =
     [demo_row ''2024-01-01'' ''10:00'' ''Researchers'' ''Title'' ''Hello'' ''self'' '''',
      demo_row ''2024-01-01'' ''10:05'' ''Alice'' '''' ''First'' ''comment'' ''0'',
      demo_row ''2024-01-01'' ''10:10'' ''Researchers'' '''' ''Second'' ''comment'' ''1'']"

definition demo_tick :: "string \<Rightarrow> tick" where
  "demo_tick t = \<lparr>now_date = ''2024-01-01'', now_time = t, file_rows = demo_rows, draws = []\<rparr>"





text \<open>A Publisher that is down: every call raises \<^verbatim>\<open>ForumProviderError\<close>.\<close>

definition failing_provider :: provider where
  "failing_provider =
     \<lparr>submit_thread = (\<lambda>n bot_id slug title body. ForumProviderError),
      submit_reply = (\<lambda>n bot_id thread_id body parent. ForumProviderError)\<rparr>"

text \<open>
  A live edit of the schedule between two ticks: the thread of row 0 is moved from 10:00
  to 10:05 after it was published.
\<close>

definition edited_ticks :: "tick list" where
  "edited_ticks =
     [\<lparr>now_date = ''2024-01-01'', now_time = ''10:00'',
       file_rows = [demo_row ''2024-01-01'' ''10:00'' ''Researchers'' ''Title'' ''Hello'' ''self'' ''''],
       draws = []\<rparr>,
      \<lparr>now_date = ''2024-01-01'', now_time = ''10:05'',
       file_rows = [demo_row ''2024-01-01'' ''10:05'' ''Researchers'' ''Title'' ''Hello'' ''self'' ''''],
       draws = []\<rparr>]"

text \<open>
  A two-day schedule: the thread of day 1, the thread of day 2 and the first comment of
  day 2, with the three ticks at which they fall due.
\<close>

definition two_day_rows :: "csv_row list" where
  "two_day_rows =
     [demo_row ''2024-01-01'' ''10:00'' ''Researchers'' ''Day one'' ''Hello'' ''self'' '''',
      demo_row ''2024-01-02'' ''10:00'' ''Researchers'' ''Day two'' ''Again'' ''self'' '''',
      demo_row ''2024-01-02'' ''10:05'' ''Alice'' '''' ''First'' ''comment'' ''0'']"

definition two_day_ticks :: "tick list" where
  "two_day_ticks =
     [\<lparr>now_date = ''2024-01-01'', now_time = ''10:00'', file_rows = two_day_rows, draws = []\<rparr>,
      \<lparr>now_date = ''2024-01-02'', now_time = ''10:00'', file_rows = two_day_rows, draws = []\<rparr>,
      \<lparr>now_date = ''2024-01-02'', now_time = ''10:05'', file_rows = two_day_rows, draws = []\<rparr>]"

text \<open>
  The calendar of a run started with \<^verbatim>\<open>--start-date 2024-01-01\<close>, for the headers
  \<open>Day 1\<close> to \<open>Day 31\<close>; the examples use no other header.
\<close>

definition january :: calendar where
  "january =
     \<lparr>start = ''2024-01-01'',
      date_of = (\<lambda>digits. if 1 \<le> digits_value digits \<and> digits_value digits \<le> 31
                           then Some (''2024-01-'' @ pad2 (digits_value digits)) else None)\<rparr>"

text \<open>Outlines: lines are joined by newlines, fields by tabs.\<close>

definition tabbed :: "string list \<Rightarrow> string" where
  "tabbed cells = join [tab] cells"

definition outline :: "string list \<Rightarrow> string" where
  "outline ls = join [CHR 0x0A] ls"

definition nested_outline :: string where
  "nested_outline = outline
     [''Day 1: Title'',
      tabbed [''ID'', ''Bot & Time'', ''Comment''],
      tabbed [''0'', ''Researchers'', ''Hello''],
      tabbed [''1.'', ''Alice'', ''First''],
      tabbed [''1.1'', ''Bob'', ''Second''],
      tabbed [''1.1.1'', ''Alice'', ''Third'']]"

definition spaced_outline :: string where
  "spaced_outline = outline
     [''Day 1: Title'',
      ''0  Researchers  Hello'',
      ''1  Alice  First'']"

definition placeholder_outline :: string where
  "placeholder_outline = outline
     [''Day 1: Title'',
      tabbed [''0'', ''Researchers'', ''Hello''],
      tabbed [''1'', ''Alice'', ''/LLM generated sentence/''],
      tabbed [''2'', ''Bob'', ''Second'']]"

text \<open>A thread whose body is only the placeholder, and a parser state at the start of a day.\<close>

definition empty_thread_outline :: string where
  "empty_thread_outline = outline
     [''Day 1: Title'',
      tabbed [''0'', ''Researchers'', ''/LLM generated sentence/'']]"

definition fresh :: pstate where
  "fresh = \<lparr>current_title = '''', current_date = ''2024-01-01'', minute_offset = 0, out_rows = []\<rparr>"

section \<open>Properties of the scheduler\<close>

subsection \<open>Decimal rendering is injective\<close>


lemma digits_value_snoc: "digits_value (s @ [c]) = 10 * digits_value s + (of_char c - 48)"
  by (simp add: digits_value_def)

lemma digits_value_digit: "d < 10 \<Longrightarrow> digits_value [digit_char d] = d"
  by (simp add: digits_value_def digit_char_def)

lemma digits_value_str_nat: "digits_value (str_nat n) = n"
proof (induction n rule: str_nat.induct)
  case (1 n)
  show ?case
  proof (cases "n < 10")
    case True
    then show ?thesis by (subst str_nat.simps) (simp add: digits_value_digit)
  next
    case False
    have "n mod 10 < 10" by simp
    then have d: "of_char (digit_char (n mod 10)) - 48 = n mod 10"
      by (simp add: digit_char_def)
    from False 1 have "digits_value (str_nat (n div 10)) = n div 10" by simp
    with False d show ?thesis
      by (subst str_nat.simps) (simp add: digits_value_snoc)
  qed
qed

lemma str_nat_inj: "str_nat m = str_nat n \<Longrightarrow> m = n"
  by (metis digits_value_str_nat)

lemma post_key_of_inj: "post_key_of i d t = post_key_of j d t \<Longrightarrow> i = j"
  by (simp add: post_key_of_def str_nat_inj)

lemma sel_mark [simp]:
  "executed_posts (mark k w) = insert k (executed_posts w)"
  "post_refs (mark k w) = post_refs w"
  "calls (mark k w) = calls w"
  by (simp_all add: mark_def)

lemma sel_record_call [simp]:
  "executed_posts (record_call k c w) = executed_posts w"
  "post_refs (record_call k c w) = post_refs w"
  "calls (record_call k c w) = calls w @ [(k, c)]"
  by (simp_all add: record_call_def)

lemma sel_bind_ref [simp]:
  "executed_posts (bind_ref k v w) = executed_posts w"
  "post_refs (bind_ref k v w) = AList.update k v (post_refs w)"
  "calls (bind_ref k v w) = calls w"
  by (simp_all add: bind_ref_def)

lemma process_post_effect:
  "process_post st pv w (idx, row, key) = (e, w') \<Longrightarrow>
     (calls w' = calls w \<or> (\<exists>c. calls w' = calls w @ [(key, c)])) \<and>
     (e = None \<longrightarrow> executed_posts w' = insert key (executed_posts w)) \<and>
     (e \<noteq> None \<longrightarrow> executed_posts w' = executed_posts w)"
  by (auto simp: process_post_def watch_self_def watch_comment_def Let_def
      split: option.splits if_splits outcome.splits)

lemma process_post_refs:
  "process_post st pv w (idx, row, key) = (e, w') \<Longrightarrow>
     map_of (post_refs w) k \<noteq> None \<Longrightarrow> map_of (post_refs w') k \<noteq> None"
  by (auto simp: process_post_def watch_self_def watch_comment_def Let_def update_conv'
      split: option.splits if_splits outcome.splits)


lemma process_post_ledger:
  assumes "process_post st pv w p = (e, w')" and "ledger_ok w" and "key_of p \<notin> executed_posts w"
  shows "distinct (map fst (calls w'))"
    and "e = None \<Longrightarrow> ledger_ok w'"
    and "e = None \<Longrightarrow> executed_posts w' = insert (key_of p) (executed_posts w)"
    and "executed_posts w \<subseteq> executed_posts w'"
    and "k \<in> executed_posts w \<Longrightarrow> calls_for k w' = calls_for k w"
    and "length (calls w') \<le> Suc (length (calls w))"
proof -
  obtain idx row key where p: "p = (idx, row, key)" by (cases p)
  from assms(1) have eff:
    "calls w' = calls w \<or> (\<exists>c. calls w' = calls w @ [(key, c)])"
    "e = None \<longrightarrow> executed_posts w' = insert key (executed_posts w)"
    "e \<noteq> None \<longrightarrow> executed_posts w' = executed_posts w"
    using process_post_effect [of st pv w idx row key e w'] by (simp_all add: p)
  from assms(3) have fresh: "key \<notin> executed_posts w" by (simp add: p key_of_def)
  with assms(2) have nk: "key \<notin> set (map fst (calls w))" unfolding ledger_ok_def by blast
  have sub: "set (map fst (calls w)) \<subseteq> executed_posts w"
    using assms(2) by (simp add: ledger_ok_def)
  show dist: "distinct (map fst (calls w'))"
    using eff(1) assms(2) nk by (auto simp: ledger_ok_def)
  show "e = None \<Longrightarrow> ledger_ok w'"
  proof -
    assume "e = None"
    with eff(2) have ex: "executed_posts w' = insert key (executed_posts w)" by simp
    from eff(1) have "set (map fst (calls w')) \<subseteq> insert key (set (map fst (calls w)))"
      by auto
    with sub ex have "set (map fst (calls w')) \<subseteq> executed_posts w'" by blast
    with dist show "ledger_ok w'" by (simp add: ledger_ok_def)
  qed
  show "e = None \<Longrightarrow> executed_posts w' = insert (key_of p) (executed_posts w)"
    using eff(2) by (simp add: p key_of_def)
  show "executed_posts w \<subseteq> executed_posts w'"
    using eff(2,3) by (cases e) auto
  show "k \<in> executed_posts w \<Longrightarrow> calls_for k w' = calls_for k w"
    using eff(1) fresh by (auto simp: calls_for_def)
  show "length (calls w') \<le> Suc (length (calls w))"
    using eff(1) by auto
qed

lemma process_batch_ledger:
  "process_batch st pv w ps = (e, w') \<Longrightarrow> ledger_ok w \<Longrightarrow> distinct (map key_of ps) \<Longrightarrow>
   key_of ` set ps \<inter> executed_posts w = {} \<Longrightarrow>
     distinct (map fst (calls w')) \<and>
     (e = None \<longrightarrow> ledger_ok w' \<and> executed_posts w' = executed_posts w \<union> key_of ` set ps) \<and>
     executed_posts w \<subseteq> executed_posts w' \<and>
     (\<forall>k \<in> executed_posts w. calls_for k w' = calls_for k w) \<and>
     length (calls w') \<le> length (calls w) + length ps"
proof (induction ps arbitrary: w)
  case Nil
  then show ?case by (auto simp: ledger_ok_def)
next
  case (Cons p ps)
  obtain e1 w1 where step: "process_post st pv w p = (e1, w1)" by (cases "process_post st pv w p")
  have fresh: "key_of p \<notin> executed_posts w" using Cons.prems(4) by auto
  note L = process_post_ledger [OF step Cons.prems(2) fresh]
  show ?case
  proof (cases e1)
    case (Some x)
    with step Cons.prems(1) have "e = Some x" "w' = w1" by simp_all
    with L show ?thesis by auto
  next
    case None
    with step Cons.prems(1) have rest: "process_batch st pv w1 ps = (e, w')" by simp
    have ex1: "executed_posts w1 = insert (key_of p) (executed_posts w)" using L(3) None by simp
    have d: "distinct (map key_of ps)" using Cons.prems(3) by simp
    have disj: "key_of ` set ps \<inter> executed_posts w1 = {}"
      using Cons.prems(3,4) ex1 by auto
    have ok1: "ledger_ok w1" using L(2) None by simp
    note IH = Cons.IH [OF rest ok1 d disj]
    have "\<forall>k \<in> executed_posts w. calls_for k w' = calls_for k w"
    proof
      fix k assume k: "k \<in> executed_posts w"
      then have "k \<in> executed_posts w1" using L(4) by auto
      with IH have "calls_for k w' = calls_for k w1" by blast
      with L(5) [OF k] show "calls_for k w' = calls_for k w" by simp
    qed
    moreover have "length (calls w') \<le> length (calls w) + length (p # ps)"
      using IH L(6) by simp
    moreover have "e = None \<longrightarrow> executed_posts w' = executed_posts w \<union> key_of ` set (p # ps)"
      using IH ex1 by auto
    ultimately show ?thesis using IH L(4) by auto
  qed
qed


lemma shuffle_from_mset: "i < length x \<Longrightarrow> mset (shuffle_from i rnd x) = mset x"
proof (induction i arbitrary: rnd x)
  case 0
  then show ?case by simp
next
  case (Suc i)
  define j where "j = (case rnd of [] \<Rightarrow> 0 | r # _ \<Rightarrow> r mod (Suc i + 1))"
  have "j < Suc (Suc i)" by (auto simp: j_def split: list.splits)
  then have j: "j < length x" using Suc.prems by simp
  have "mset (x[Suc i := x ! j, j := x ! Suc i]) = mset x"
    using mset_swap [of j x "Suc i"] j Suc.prems by simp
  moreover have "i < length (x[Suc i := x ! j, j := x ! Suc i])" using Suc.prems by simp
  ultimately show ?case using Suc.IH [of "x[Suc i := x ! j, j := x ! Suc i]" "tl rnd"]
    by (simp add: j_def Let_def)
qed

lemma shuffle_mset: "mset (shuffle rnd x) = mset x"
  by (cases x) (simp_all add: shuffle_def shuffle_from_mset)

lemma due_scan_key:
  "p \<in> set (due_scan ex d t n rows) \<Longrightarrow>
   n \<le> fst p \<and> key_of p = post_key_of (fst p) d t \<and> key_of p \<notin> ex"
proof (induction rows arbitrary: n)
  case Nil
  then show ?case by simp
next
  case (Cons r rows)
  from Cons.prems consider
    (here) "p = (n, r, post_key_of n d t)" "post_key_of n d t \<notin> ex"
    | (later) "p \<in> set (due_scan ex d t (Suc n) rows)"
    by (auto simp: Let_def split: if_splits)
  then show ?case
  proof cases
    case here
    then show ?thesis by (simp add: key_of_def)
  next
    case later
    from Cons.IH [OF later] show ?thesis by auto
  qed
qed

lemma due_scan_distinct: "distinct (map fst (due_scan ex d t n rows))"
proof (induction rows arbitrary: n)
  case Nil
  then show ?case by simp
next
  case (Cons r rows)
  have "n \<notin> fst ` set (due_scan ex d t (Suc n) rows)"
    using due_scan_key [of _ ex d t "Suc n" rows] by fastforce
  then show ?case using Cons.IH [of "Suc n"] by (auto simp: Let_def)
qed

lemma due_posts_key:
  "p \<in> set (due_posts ex d t rows) \<Longrightarrow> key_of p = post_key_of (fst p) d t \<and> key_of p \<notin> ex"
  unfolding due_posts_def using due_scan_key [of p ex d t 0 rows] by auto

lemma due_posts_distinct_idx: "distinct (map fst (due_posts ex d t rows))"
  unfolding due_posts_def by (rule due_scan_distinct)

lemma due_posts_distinct_keys: "distinct (map key_of (due_posts ex d t rows))"
proof -
  have "map key_of (due_posts ex d t rows) =
        map (\<lambda>i. post_key_of i d t) (map fst (due_posts ex d t rows))"
    using due_posts_key by (auto simp: comp_def)
  moreover have "inj (\<lambda>i. post_key_of i d t)"
    by (rule injI) (rule post_key_of_inj)
  ultimately show ?thesis
    using due_posts_distinct_idx [of ex d t rows]
    by (simp add: distinct_map inj_on_subset [OF _ subset_UNIV] del: map_map)
qed

lemma watch_tick_ledger:
  assumes "watch_tick st pv w t = (e, w')" and "ledger_ok w"
  shows "distinct (map fst (calls w'))"
    and "e = None \<Longrightarrow> ledger_ok w'"
    and "executed_posts w \<subseteq> executed_posts w'"
    and "k \<in> executed_posts w \<Longrightarrow> calls_for k w' = calls_for k w"
proof -
  let ?due = "due_posts (executed_posts w) (now_date t) (now_time t) (file_rows t)"
  let ?ps = "shuffle (draws t) ?due"
  have m: "mset ?ps = mset ?due" by (rule shuffle_mset)
  then have "mset (map key_of ?ps) = mset (map key_of ?due)" by (metis mset_map)
  then have d: "distinct (map key_of ?ps)"
    using due_posts_distinct_keys mset_eq_imp_distinct_iff by blast
  have s: "set ?ps = set ?due" using m by (rule mset_eq_setD)
  have disj: "key_of ` set ?ps \<inter> executed_posts w = {}"
    using due_posts_key s by blast
  from assms(1) have b: "process_batch st pv w ?ps = (e, w')" by (simp add: watch_tick_def)
  note B = process_batch_ledger [OF b assms(2) d disj]
  from B show "distinct (map fst (calls w'))" by blast
  from B show "e = None \<Longrightarrow> ledger_ok w'" by blast
  from B show "executed_posts w \<subseteq> executed_posts w'" by blast
  from B show "k \<in> executed_posts w \<Longrightarrow> calls_for k w' = calls_for k w" by blast
qed

lemma watch_loop_ledger:
  "watch_loop st pv w ts = (e, w') \<Longrightarrow> ledger_ok w \<Longrightarrow>
     distinct (map fst (calls w')) \<and> executed_posts w \<subseteq> executed_posts w' \<and>
     (e = None \<longrightarrow> ledger_ok w') \<and>
     (\<forall>k \<in> executed_posts w. calls_for k w' = calls_for k w)"
proof (induction ts arbitrary: w)
  case Nil
  then show ?case by (auto simp: ledger_ok_def)
next
  case (Cons t ts)
  obtain e1 w1 where step: "watch_tick st pv w t = (e1, w1)" by (cases "watch_tick st pv w t")
  note T = watch_tick_ledger [OF step Cons.prems(2)]
  show ?case
  proof (cases e1)
    case (Some x)
    with step Cons.prems(1) have "e = Some x" "w' = w1" by simp_all
    with T show ?thesis by auto
  next
    case None
    with step Cons.prems(1) have rest: "watch_loop st pv w1 ts = (e, w')" by simp
    note IH = Cons.IH [OF rest T(2) [OF None]]
    have "\<forall>k \<in> executed_posts w. calls_for k w' = calls_for k w"
    proof
      fix k assume k: "k \<in> executed_posts w"
      then have "k \<in> executed_posts w1" using T(3) by auto
      with IH have "calls_for k w' = calls_for k w1" by blast
      with T(4) [OF k] show "calls_for k w' = calls_for k w" by simp
    qed
    with IH T(3) show ?thesis by auto
  qed
qed

lemma watch_loop_append:
  "watch_loop st pv w (ts1 @ ts2) =
     (case watch_loop st pv w ts1 of
        (Some e, w') \<Rightarrow> (Some e, w')
      | (None, w') \<Rightarrow> watch_loop st pv w' ts2)"
  by (induction ts1 arbitrary: w) (auto split: prod.splits option.splits)

lemma ledger_ok_initial: "ledger_ok initial"
  by (simp add: ledger_ok_def initial_def)

lemma filter_key_absent: "k \<notin> set (map fst xs) \<Longrightarrow> filter (\<lambda>c. fst c = k) xs = []"
  by (induction xs) auto

lemma distinct_filter_key: "distinct (map fst xs) \<Longrightarrow> length (filter (\<lambda>c. fst c = k) xs) \<le> 1"
  by (induction xs) (auto simp: filter_key_absent)

lemma distinct_calls_for: "distinct (map fst (calls w)) \<Longrightarrow> length (calls_for k w) \<le> 1"
  unfolding calls_for_def by (rule distinct_filter_key)

subsection \<open>A batch in any order\<close>





subsection \<open>The ReplyIndex keeps its keys\<close>

lemma process_batch_refs:
  "process_batch st pv w ps = (e, w') \<Longrightarrow> map_of (post_refs w) k \<noteq> None \<Longrightarrow>
     map_of (post_refs w') k \<noteq> None"
proof (induction ps arbitrary: w)
  case Nil
  then show ?case by simp
next
  case (Cons p ps)
  obtain idx row key where p: "p = (idx, row, key)" by (cases p)
  obtain e1 w1 where step: "process_post st pv w (idx, row, key) = (e1, w1)"
    by (cases "process_post st pv w (idx, row, key)")
  have k1: "map_of (post_refs w1) k \<noteq> None"
    using process_post_refs [OF step Cons.prems(2)] .
  show ?case
  proof (cases e1)
    case (Some x)
    with step Cons.prems(1) p have "w' = w1" by simp
    with k1 show ?thesis by simp
  next
    case None
    with step Cons.prems(1) p have "process_batch st pv w1 ps = (e, w')" by simp
    from Cons.IH [OF this k1] show ?thesis .
  qed
qed

lemma watch_loop_refs:
  "watch_loop st pv w ts = (e, w') \<Longrightarrow> map_of (post_refs w) k \<noteq> None \<Longrightarrow>
     map_of (post_refs w') k \<noteq> None"
proof (induction ts arbitrary: w)
  case Nil
  then show ?case by simp
next
  case (Cons t ts)
  obtain e1 w1 where step: "watch_tick st pv w t = (e1, w1)" by (cases "watch_tick st pv w t")
  then have k1: "map_of (post_refs w1) k \<noteq> None"
    using process_batch_refs Cons.prems(2) unfolding watch_tick_def by blast
  show ?case
  proof (cases e1)
    case (Some x)
    with step Cons.prems(1) have "w' = w1" by simp
    with k1 show ?thesis by simp
  next
    case None
    with step Cons.prems(1) have "watch_loop st pv w1 ts = (e, w')" by simp
    from Cons.IH [OF this k1] show ?thesis .
  qed
qed

lemma schedule_row_refs:
  "schedule_row st pv today w row = (e, w') \<Longrightarrow> map_of (p_post_refs w) k \<noteq> None \<Longrightarrow>
     map_of (p_post_refs w') k \<noteq> None"
  by (auto simp: schedule_row_def schedule_self_def schedule_comment_def Let_def update_conv'
      split: option.splits if_splits outcome.splits)

lemma schedule_loop_refs:
  "schedule_loop st pv today w rows = (e, w') \<Longrightarrow> map_of (p_post_refs w) k \<noteq> None \<Longrightarrow>
     map_of (p_post_refs w') k \<noteq> None"
proof (induction rows arbitrary: w)
  case Nil
  then show ?case by simp
next
  case (Cons row rows)
  obtain e1 w1 where step: "schedule_row st pv today w row = (e1, w1)"
    by (cases "schedule_row st pv today w row")
  have k1: "map_of (p_post_refs w1) k \<noteq> None"
    using schedule_row_refs [OF step Cons.prems(2)] .
  show ?case
  proof (cases e1)
    case (Some x)
    with step Cons.prems(1) have "w' = w1" by simp
    with k1 show ?thesis by simp
  next
    case None
    with step Cons.prems(1) have "schedule_loop st pv today w1 rows = (e, w')" by simp
    from Cons.IH [OF this k1] show ?thesis .
  qed
qed


section \<open>Properties of the parser\<close>

subsection \<open>The loop, case by case\<close>


lemma handle_row_offset: "minute_offset (handle_row slug st groups k) = minute_offset st + 5"
  by (cases groups) (simp add: handle_row_def Let_def)

lemma handle_row_rows:
  "out_rows (handle_row slug st (g1, g2, g3) k) =
     (if clean (joined_content g3 k) = [] \<and> kind_of (row_id_of g1) \<noteq> ''self'' then out_rows st
      else out_rows st @
        [\<lparr>r_datetime = current_date st, r_time = time_str (minute_offset st), r_account = strip g2,
          r_title = (if kind_of (row_id_of g1) = ''self'' then current_title st else ''''),
          r_body = clean (joined_content g3 k), r_kind = kind_of (row_id_of g1),
          r_reply_to = reply_to_of (row_id_of g1), r_community = slug, row_id = row_id_of g1\<rparr>])"
  by (simp add: handle_row_def Let_def)

lemma parse_lines_blank:
  "strip raw = [] \<Longrightarrow> parse_lines cal slug st (raw # later) = parse_lines cal slug st later"
  by simp

lemma parse_lines_day:
  "strip raw \<noteq> [] \<Longrightarrow> day_match (strip raw) = Some (digits, title) \<Longrightarrow>
   parse_lines cal slug st (raw # later) =
     (case date_of cal digits of
        None \<Rightarrow> Inl DateError
      | Some date \<Rightarrow> parse_lines cal slug
          (st\<lparr>current_title := strip title, current_date := date, minute_offset := 0\<rparr>) later)"
  by simp

lemma parse_lines_row:
  "reads_as raw groups \<Longrightarrow>
   parse_lines cal slug st (raw # later) =
     parse_lines cal slug (handle_row slug st groups (takeWhile (\<lambda>l. \<not> ends_body l) later))
       (dropWhile (\<lambda>l. \<not> ends_body l) later)"
  by (simp add: reads_as_def)

lemma parse_lines_skip:
  "strip raw \<noteq> [] \<Longrightarrow> day_match (strip raw) = None \<Longrightarrow>
   is_table_header (strip raw) \<or> row_match (strip raw) = None \<Longrightarrow>
   parse_lines cal slug st (raw # later) = parse_lines cal slug st later"
  by (auto simp: Let_def)

declare parse_lines.simps(2) [simp del]

lemma lines_induct [case_names Nil Blank Day Skip Row]:
  assumes nil: "P []"
    and blank: "\<And>raw later. strip raw = [] \<Longrightarrow> P later \<Longrightarrow> P (raw # later)"
    and day: "\<And>raw later digits title. strip raw \<noteq> [] \<Longrightarrow>
               day_match (strip raw) = Some (digits, title) \<Longrightarrow> P later \<Longrightarrow> P (raw # later)"
    and skip: "\<And>raw later. strip raw \<noteq> [] \<Longrightarrow> day_match (strip raw) = None \<Longrightarrow>
               is_table_header (strip raw) \<or> row_match (strip raw) = None \<Longrightarrow>
               P later \<Longrightarrow> P (raw # later)"
    and row: "\<And>raw later groups. reads_as raw groups \<Longrightarrow>
               P (dropWhile (\<lambda>l. \<not> ends_body l) later) \<Longrightarrow> P (raw # later)"
  shows "P ls"
proof (induction ls rule: length_induct)
  case (1 ls)
  show ?case
  proof (cases ls)
    case Nil
    with nil show ?thesis by simp
  next
    case (Cons raw later)
    have IH: "\<And>ys. length ys \<le> length later \<Longrightarrow> P ys" using 1 Cons by simp
    consider (b) "strip raw = []"
      | (d) a where "strip raw \<noteq> []" "day_match (strip raw) = Some a"
      | (s) "strip raw \<noteq> []" "day_match (strip raw) = None"
            "is_table_header (strip raw) \<or> row_match (strip raw) = None"
      | (r) groups where "reads_as raw groups"
      by (cases "day_match (strip raw)"; cases "row_match (strip raw)") (auto simp: reads_as_def)
    then show ?thesis
    proof cases
      case b
      with blank IH Cons show ?thesis by simp
    next
      case d
      obtain digits title where "a = (digits, title)" by (cases a)
      with d day [of raw digits title later] IH Cons show ?thesis by simp
    next
      case s
      with skip [of raw later] IH Cons show ?thesis by simp
    next
      case r
      have "length (dropWhile (\<lambda>l. \<not> ends_body l) later) \<le> length later"
        by (rule length_dropWhile_le)
      with row [OF r] IH Cons show ?thesis by simp
    qed
  qed
qed


lemma kind_of_cases: "kind_of rid = ''self'' \<or> kind_of rid = ''comment''"
  by (simp add: kind_of_def)

lemma handle_row_keeps:
  "comments_have_body (out_rows st) \<Longrightarrow> comments_have_body (out_rows (handle_row slug st groups k))"
  by (cases groups) (auto simp: handle_row_rows comments_have_body_def)

lemma parse_lines_keeps:
  "parse_lines cal slug st ls = Inr st' \<Longrightarrow> comments_have_body (out_rows st) \<Longrightarrow>
     comments_have_body (out_rows st')"
proof (induction ls arbitrary: st rule: lines_induct)
  case Nil
  then show ?case by simp
next
  case (Blank raw later)
  then show ?case by (simp add: parse_lines_blank)
next
  case (Day raw later digits title)
  from Day.prems(1) Day.hyps obtain date where d: "date_of cal digits = Some date"
    and r: "parse_lines cal slug
              (st\<lparr>current_title := strip title, current_date := date, minute_offset := 0\<rparr>) later = Inr st'"
    by (auto simp: parse_lines_day split: option.splits)
  from Day.IH [OF r] Day.prems(2) show ?case by simp
next
  case (Skip raw later)
  then show ?case by (simp add: parse_lines_skip)
next
  case (Row raw later groups)
  from Row.prems(1) Row.hyps
  have r: "parse_lines cal slug (handle_row slug st groups (takeWhile (\<lambda>l. \<not> ends_body l) later))
             (dropWhile (\<lambda>l. \<not> ends_body l) later) = Inr st'"
    by (simp add: parse_lines_row)
  from Row.IH [OF r handle_row_keeps [OF Row.prems(2)]] show ?case .
qed

subsection \<open>Times and positions\<close>


lemma slots_blank: "strip raw = [] \<Longrightarrow> slots seen (raw # later) = slots seen later"
  by simp

lemma slots_day:
  "strip raw \<noteq> [] \<Longrightarrow> day_match (strip raw) = Some header \<Longrightarrow> slots seen (raw # later) = slots 0 later"
  by simp

lemma slots_skip:
  "strip raw \<noteq> [] \<Longrightarrow> day_match (strip raw) = None \<Longrightarrow>
   is_table_header (strip raw) \<or> row_match (strip raw) = None \<Longrightarrow>
   slots seen (raw # later) = slots seen later"
  by (auto simp: Let_def)

lemma slots_row:
  "reads_as raw (g1, g2, g3) \<Longrightarrow>
   slots seen (raw # later) =
     (if clean (joined_content g3 (takeWhile (\<lambda>l. \<not> ends_body l) later)) = []
         \<and> kind_of (row_id_of g1) \<noteq> ''self''
      then [] else [seen])
     @ slots (Suc seen) (dropWhile (\<lambda>l. \<not> ends_body l) later)"
  by (simp add: reads_as_def)

declare slots.simps(2) [simp del]

lemma parse_lines_times:
  "parse_lines cal slug st ls = Inr st' \<Longrightarrow> minute_offset st = 5 * seen \<Longrightarrow>
     \<exists>new. out_rows st' = out_rows st @ new \<and>
           map r_time new = map (\<lambda>k. time_str (5 * k)) (slots seen ls)"
proof (induction ls arbitrary: st seen rule: lines_induct)
  case Nil
  then show ?case by simp
next
  case (Blank raw later)
  then show ?case by (simp add: parse_lines_blank slots_blank)
next
  case (Day raw later digits title)
  from Day.prems(1) Day.hyps obtain date where
    r: "parse_lines cal slug
              (st\<lparr>current_title := strip title, current_date := date, minute_offset := 0\<rparr>) later = Inr st'"
    by (auto simp: parse_lines_day split: option.splits)
  from Day.IH [OF r, of 0] Day.hyps show ?case by (simp add: slots_day)
next
  case (Skip raw later)
  then show ?case by (simp add: parse_lines_skip slots_skip)
next
  case (Row raw later groups)
  obtain g1 g2 g3 where g: "groups = (g1, g2, g3)" by (cases groups)
  let ?k = "takeWhile (\<lambda>l. \<not> ends_body l) later"
  let ?st = "handle_row slug st groups ?k"
  from Row.prems(1) Row.hyps
  have r: "parse_lines cal slug ?st (dropWhile (\<lambda>l. \<not> ends_body l) later) = Inr st'"
    by (simp add: parse_lines_row)
  have off: "minute_offset ?st = 5 * Suc seen"
    using Row.prems(2) by (simp add: handle_row_offset)
  from Row.IH [OF r off] obtain new where n:
    "out_rows st' = out_rows ?st @ new"
    "map r_time new = map (\<lambda>k. time_str (5 * k)) (slots (Suc seen) (dropWhile (\<lambda>l. \<not> ends_body l) later))"
    by blast
  show ?case
  proof (cases "clean (joined_content g3 ?k) = [] \<and> kind_of (row_id_of g1) \<noteq> ''self''")
    case True
    with n Row.hyps g show ?thesis by (simp add: handle_row_rows slots_row)
  next
    case False
    then have "out_rows ?st = out_rows st @
        [\<lparr>r_datetime = current_date st, r_time = time_str (5 * seen), r_account = strip g2,
          r_title = (if kind_of (row_id_of g1) = ''self'' then current_title st else ''''),
          r_body = clean (joined_content g3 ?k), r_kind = kind_of (row_id_of g1),
          r_reply_to = reply_to_of (row_id_of g1), r_community = slug, row_id = row_id_of g1\<rparr>]"
      using Row.prems(2) by (simp add: g handle_row_rows)
    with n False Row.hyps g show ?thesis by (simp add: slots_row)
  qed
qed


subsection \<open>Facts about the ids 0, 1, 1.1 and 1.1.1\<close>






subsection \<open>Where a body ends\<close>

text \<open>
  What the lookahead does: the lines after a content row are appended to its body, each
  stripped and after one space, up to the first line that starts a row of the tab
  grammar, starts a day header, starts with \<^verbatim>\<open>ID\<close> and a tab, or is blank; the loop
  goes on from that line.
\<close>

lemma joined_content_snoc:
  "joined_content g (ks @ [l]) = joined_content g ks @ '' '' @ strip l"
  by (simp add: joined_content_def)

lemma body_ends_at_first_stop:
  assumes "reads_as raw groups" and "\<forall>l \<in> set ks. \<not> ends_body l" and "ends_body stop"
  shows "parse_lines cal slug st (raw # ks @ stop # later) =
           parse_lines cal slug (handle_row slug st groups ks) (stop # later)"
proof -
  have "takeWhile (\<lambda>l. \<not> ends_body l) (ks @ stop # later) = ks"
    using assms(2,3) by (simp add: takeWhile_append2 takeWhile_tail)
  moreover have "dropWhile (\<lambda>l. \<not> ends_body l) (ks @ stop # later) = stop # later"
    using assms(2,3) by (simp add: dropWhile_append2 dropWhile_append3)
  ultimately show ?thesis using assms(1) by (simp add: parse_lines_row)
qed

section \<open>The claims\<close>

subsection \<open>C1: a ledger key is dispatched at most once\<close>

text \<open>
  C1. In continuous mode, once a key is in the ExecutionLedger (after any run \<open>ts1\<close>
  that no exception ended), no continuation \<open>ts2\<close> of the run makes another Publisher
  call for that key, whatever schedules, clocks, shuffles and Publisher answers the later
  ticks see; and over the whole run at most one \<^verbatim>\<open>submit_thread\<close> or
  \<^verbatim>\<open>submit_reply\<close> invocation was made for the key.
\<close>

theorem watch_idempotent:
  assumes "fst (run_watch st pv ts1) = None"
    and "key \<in> executed_posts (snd (run_watch st pv ts1))"
  shows "calls_for key (snd (run_watch st pv (ts1 @ ts2))) = calls_for key (snd (run_watch st pv ts1))
         \<and> length (calls_for key (snd (run_watch st pv (ts1 @ ts2)))) \<le> 1"
proof (cases "bots st = []")
  case True
  with assms(2) show ?thesis by (simp add: run_watch_def initial_def)
next
  case False
  obtain w1 where r1: "watch_loop st pv initial ts1 = (None, w1)"
    using assms(1) False by (cases "watch_loop st pv initial ts1") (simp add: run_watch_def)
  obtain e w' where r2: "watch_loop st pv w1 ts2 = (e, w')" by (cases "watch_loop st pv w1 ts2")
  have ok1: "ledger_ok w1"
    using watch_loop_ledger [OF r1 ledger_ok_initial] by simp
  have k: "key \<in> executed_posts w1" using assms(2) r1 False by (simp add: run_watch_def)
  have whole: "run_watch st pv (ts1 @ ts2) = (e, w')"
    using False r1 r2 by (simp add: run_watch_def watch_loop_append)
  have first: "run_watch st pv ts1 = (None, w1)" using False r1 by (simp add: run_watch_def)
  from watch_loop_ledger [OF r2 ok1] k
  have "calls_for key w' = calls_for key w1" and "distinct (map fst (calls w'))" by blast+
  then show ?thesis using whole first distinct_calls_for [of w' key] by simp
qed

text \<open>
  The same minute presented twice (a clock re-alignment): the thread of row 0 is
  submitted once.
\<close>

theorem watch_idempotent_witness:
  "fst (run_watch demo_state demo_provider [demo_tick ''10:00'']) = None
   \<and> ''0:2024-01-01:10:00'' \<in> executed_posts (snd (run_watch demo_state demo_provider [demo_tick ''10:00'']))
   \<and> calls_for ''0:2024-01-01:10:00''
        (snd (run_watch demo_state demo_provider ([demo_tick ''10:00''] @ [demo_tick ''10:00''])))
      = [(''0:2024-01-01:10:00'', Submit_thread ''b0'' (Some ''town'') ''Title'' ''Hello'')]"
proof -
  have a: "fst (run_watch demo_state demo_provider [demo_tick ''10:00'']) = None"
    by code_simp
  have b: "''0:2024-01-01:10:00'' \<in> executed_posts (snd (run_watch demo_state demo_provider [demo_tick ''10:00'']))"
    by code_simp
  have c: "calls_for ''0:2024-01-01:10:00'' (snd (run_watch demo_state demo_provider [demo_tick ''10:00'']))
      = [(''0:2024-01-01:10:00'', Submit_thread ''b0'' (Some ''town'') ''Title'' ''Hello'')]"
    by code_simp
  from watch_idempotent [OF a b, of "[demo_tick ''10:00'']"] a b c show ?thesis by simp
qed

subsection \<open>C2: a due batch under every permutation\<close>





subsection \<open>C3: where a thread is registered and where its comments look\<close>

text \<open>
  C3 does not hold of the code. Continuous mode registers a thread under the index of its
  row in the file, and a comment looks its thread up under the first segment of its
  \<^verbatim>\<open>reply_to\<close>. On the one-day schedule (rows \<open>0\<close>, \<open>1\<close>, \<open>1.1\<close>, run in order) the
  nested reply looks up \<open>1\<close>, finds nothing and is skipped: two Publisher calls for
  three records. On the two-day schedule the thread of day 2 is registered under \<open>1\<close>,
  its first comment looks up \<open>0\<close> and is sent to the thread \<open>T0\<close> of day 1.
\<close>

theorem thread_reference_mismatch:
  "calls (snd (run_watch demo_state demo_provider
      [demo_tick ''10:00'', demo_tick ''10:05'', demo_tick ''10:10'']))
     = [(''0:2024-01-01:10:00'', Submit_thread ''b0'' (Some ''town'') ''Title'' ''Hello''),
        (''1:2024-01-01:10:05'', Submit_reply ''b1'' ''T0'' ''First'' None)]
   \<and> ''2:2024-01-01:10:10'' \<in> executed_posts (snd (run_watch demo_state demo_provider
      [demo_tick ''10:00'', demo_tick ''10:05'', demo_tick ''10:10'']))
   \<and> truthy (map_of (post_refs (snd (run_watch demo_state demo_provider
         [demo_tick ''10:00'', demo_tick ''10:05''])))
       (first_segment (strip (r_reply_to (demo_rows ! 2))))) = None
   \<and> post_refs (snd (run_watch demo_state demo_provider two_day_ticks))
     = [(''0'', ''P2''), (''1'', ''T1'')]
   \<and> calls (snd (run_watch demo_state demo_provider two_day_ticks))
     = [(''0:2024-01-01:10:00'', Submit_thread ''b0'' (Some ''town'') ''Day one'' ''Hello''),
        (''1:2024-01-02:10:00'', Submit_thread ''b0'' (Some ''town'') ''Day two'' ''Again''),
        (''2:2024-01-02:10:05'', Submit_reply ''b1'' ''T0'' ''First'' None)]"
  by code_simp

subsection \<open>C4: the key under which a published comment is registered\<close>

text \<open>
  C4 does not hold of the code. The comment of row 1 (its own id is \<open>1\<close>, its
  \<^verbatim>\<open>reply_to\<close> is \<open>0\<close>) is published and the Publisher returns the post id \<open>P1\<close>;
  afterwards the ReplyIndex holds \<open>P1\<close> under \<open>0\<close>, in place of the thread id, and
  nothing under \<open>1\<close>. Both modes do the same.
\<close>

theorem comment_registered_under_parent:
  "calls (snd (run_watch demo_state demo_provider [demo_tick ''10:00'', demo_tick ''10:05'']))
     = [(''0:2024-01-01:10:00'', Submit_thread ''b0'' (Some ''town'') ''Title'' ''Hello''),
        (''1:2024-01-01:10:05'', Submit_reply ''b1'' ''T0'' ''First'' None)]
   \<and> submit_reply demo_provider 1 ''b1'' ''T0'' ''First'' None = Returned [(''postId'', ''P1'')]
   \<and> post_refs (snd (run_watch demo_state demo_provider [demo_tick ''10:00'', demo_tick ''10:05'']))
     = [(''0'', ''P1'')]
   \<and> map_of (post_refs (snd (run_watch demo_state demo_provider
        [demo_tick ''10:00'', demo_tick ''10:05'']))) ''1'' = None
   \<and> p_post_refs (snd (run_schedule demo_state demo_provider ''2024-01-01'' demo_rows))
     = [(''0'', ''P1'')]"
  by code_simp

subsection \<open>C5: the ReplyIndex never shrinks\<close>

text \<open>
  C5 as stated fails: a binding can be replaced. After a live edit that moves the thread
  of row 0 to a later minute, the row falls due again under a new ledger key, and the
  reference \<open>0\<close> is bound to the new thread \<open>T1\<close> instead of \<open>T0\<close>.
\<close>

theorem reply_index_overwritten:
  "map_of (post_refs (snd (run_watch demo_state demo_provider (take 1 edited_ticks)))) ''0'' = Some ''T0''
   \<and> map_of (post_refs (snd (run_watch demo_state demo_provider edited_ticks))) ''0'' = Some ''T1''"
  by code_simp

text \<open>
  C5, amended. No operation of the scheduler removes a key from the ReplyIndex: a
  reference that is bound stays bound through every run of ticks of continuous mode and
  through every pass over the rows of single-pass mode, whatever the Publisher answers;
  the identifier it is bound to may be replaced by a later registration under the same
  key.
\<close>

theorem reply_index_keys_persist:
  "(map_of (post_refs w) k \<noteq> None \<longrightarrow>
      map_of (post_refs (snd (watch_loop st pv w ts))) k \<noteq> None)
   \<and> (map_of (p_post_refs v) k \<noteq> None \<longrightarrow>
      map_of (p_post_refs (snd (schedule_loop st pv today v rows))) k \<noteq> None)"
proof -
  have "map_of (post_refs w) k \<noteq> None \<Longrightarrow> map_of (post_refs (snd (watch_loop st pv w ts))) k \<noteq> None"
    using watch_loop_refs [of st pv w ts "fst (watch_loop st pv w ts)" "snd (watch_loop st pv w ts)" k]
    by simp
  moreover have "map_of (p_post_refs v) k \<noteq> None \<Longrightarrow>
      map_of (p_post_refs (snd (schedule_loop st pv today v rows))) k \<noteq> None"
    using schedule_loop_refs [of st pv today v rows "fst (schedule_loop st pv today v rows)"
        "snd (schedule_loop st pv today v rows)" k]
    by simp
  ultimately show ?thesis by blast
qed

theorem reply_index_keys_persist_witness:
  "map_of (post_refs (snd (run_watch demo_state demo_provider (take 1 edited_ticks)))) ''0'' \<noteq> None
   \<and> map_of (post_refs (snd (watch_loop demo_state demo_provider
         (snd (run_watch demo_state demo_provider (take 1 edited_ticks))) (drop 1 edited_ticks)))) ''0'' \<noteq> None
   \<and> map_of (p_post_refs (snd (run_schedule demo_state demo_provider ''2024-01-01'' (take 1 demo_rows)))) ''0'' \<noteq> None
   \<and> map_of (p_post_refs (snd (schedule_loop demo_state demo_provider ''2024-01-01''
         (snd (run_schedule demo_state demo_provider ''2024-01-01'' (take 1 demo_rows))) (drop 1 demo_rows)))) ''0'' \<noteq> None"
proof -
  have a: "map_of (post_refs (snd (run_watch demo_state demo_provider (take 1 edited_ticks)))) ''0'' \<noteq> None"
    by code_simp
  have b: "map_of (p_post_refs (snd (run_schedule demo_state demo_provider ''2024-01-01'' (take 1 demo_rows)))) ''0'' \<noteq> None"
    by code_simp
  from reply_index_keys_persist [of "snd (run_watch demo_state demo_provider (take 1 edited_ticks))" "''0''"
      demo_state demo_provider "drop 1 edited_ticks"
      "snd (run_schedule demo_state demo_provider ''2024-01-01'' (take 1 demo_rows))" "''2024-01-01''" "drop 1 demo_rows"]
    a b show ?thesis by blast
qed

subsection \<open>C6: skipped and failed records\<close>

text \<open>
  C6. In continuous mode, take a due record that is a comment whose thread reference
  does not resolve, or any due record at a moment when every Publisher call raises
  \<^verbatim>\<open>ForumProviderError\<close>. Processing it lets no exception escape, puts its key in the
  ledger and leaves the ReplyIndex as it was; the loop goes on with the rest of the batch
  from that state; and no later tick, whatever its clock and schedule, has the key in
  its due set.
\<close>

theorem skip_marks_executed:
  assumes "(strip (r_kind row) = ''comment'' \<and>
            truthy (map_of (post_refs w) (first_segment (strip (r_reply_to row)))) = None)
         \<or> ((\<forall>b s t c. submit_thread pv (length (calls w)) b s t c = ForumProviderError) \<and>
            (\<forall>b t c p. submit_reply pv (length (calls w)) b t c p = ForumProviderError))"
  shows "\<exists>w'. process_post st pv w (idx, row, key) = (None, w')
            \<and> key \<in> executed_posts w' \<and> post_refs w' = post_refs w
            \<and> process_batch st pv w ((idx, row, key) # ps) = process_batch st pv w' ps
            \<and> (\<forall>d t rows. key \<notin> key_of ` set (due_posts (executed_posts w') d t rows))"
proof -
  obtain e w' where step: "process_post st pv w (idx, row, key) = (e, w')"
    by (cases "process_post st pv w (idx, row, key)")
  from assms step have r: "e = None \<and> post_refs w' = post_refs w"
    by (auto simp: process_post_def watch_self_def watch_comment_def Let_def
        split: option.splits if_splits outcome.splits)
  with process_post_effect [OF step] have k: "key \<in> executed_posts w'" by simp
  have "\<forall>d t rows. key \<notin> key_of ` set (due_posts (executed_posts w') d t rows)"
    using due_posts_key k by blast
  with step r k show ?thesis by simp
qed

theorem skip_marks_executed_witness:
  "strip (r_kind (demo_rows ! 2)) = ''comment''
   \<and> truthy (map_of (post_refs initial) (first_segment (strip (r_reply_to (demo_rows ! 2))))) = None
   \<and> fst (process_post demo_state demo_provider initial (2, demo_rows ! 2, ''2:2024-01-01:10:10'')) = None
   \<and> ''2:2024-01-01:10:10'' \<in> executed_posts (snd (process_post demo_state demo_provider initial
         (2, demo_rows ! 2, ''2:2024-01-01:10:10'')))
   \<and> fst (process_post demo_state failing_provider initial (0, demo_rows ! 0, ''0:2024-01-01:10:00'')) = None
   \<and> ''0:2024-01-01:10:00'' \<in> executed_posts (snd (process_post demo_state failing_provider initial
         (0, demo_rows ! 0, ''0:2024-01-01:10:00'')))
   \<and> map snd (calls (snd (process_post demo_state failing_provider initial
         (0, demo_rows ! 0, ''0:2024-01-01:10:00'')))) = [Submit_thread ''b0'' (Some ''town'') ''Title'' ''Hello'']"
proof -
  have a: "strip (r_kind (demo_rows ! 2)) = ''comment''" by code_simp
  have b: "truthy (map_of (post_refs initial) (first_segment (strip (r_reply_to (demo_rows ! 2))))) = None"
    by code_simp
  have c: "(\<forall>b s t c. submit_thread failing_provider (length (calls initial)) b s t c = ForumProviderError) \<and>
           (\<forall>b t c p. submit_reply failing_provider (length (calls initial)) b t c p = ForumProviderError)"
    by (simp add: failing_provider_def)
  have d: "map snd (calls (snd (process_post demo_state failing_provider initial
         (0, demo_rows ! 0, ''0:2024-01-01:10:00'')))) = [Submit_thread ''b0'' (Some ''town'') ''Title'' ''Hello'']"
    by code_simp
  from skip_marks_executed [of "demo_rows ! 2" initial demo_provider demo_state 2 "''2:2024-01-01:10:10''" "[]"] a b
  have 1: "fst (process_post demo_state demo_provider initial (2, demo_rows ! 2, ''2:2024-01-01:10:10'')) = None
     \<and> ''2:2024-01-01:10:10'' \<in> executed_posts (snd (process_post demo_state demo_provider initial
         (2, demo_rows ! 2, ''2:2024-01-01:10:10'')))"
    by auto
  from skip_marks_executed [of "demo_rows ! 0" initial failing_provider demo_state 0 "''0:2024-01-01:10:00''" "[]"] c
  have 2: "fst (process_post demo_state failing_provider initial (0, demo_rows ! 0, ''0:2024-01-01:10:00'')) = None
     \<and> ''0:2024-01-01:10:00'' \<in> executed_posts (snd (process_post demo_state failing_provider initial
         (0, demo_rows ! 0, ''0:2024-01-01:10:00'')))"
    by auto
  from a b 1 2 d show ?thesis by blast
qed

subsection \<open>C7: where a multi-line body ends\<close>

text \<open>
  C7 does not hold of the code. The loop recognises a content row in the tab grammar and
  in the fallback grammar of two or more spaces, but the lookahead that ends a body tests
  the tab grammar only. In an outline written with spaces, the line
  \<^verbatim>\<open>1  Alice  First\<close> is a content row by the loop's own patterns and does not end
  the body of the row above it: it is merged into that body and never becomes a record.
\<close>

theorem spaced_rows_merged:
  "parse_schedule_text january spaced_outline ''town'' =
     Inr [\<lparr>r_datetime = ''2024-01-01'', r_time = ''10:00'', r_account = ''Researchers'',
           r_title = ''Title'', r_body = ''Hello 1  Alice  First'', r_kind = ''self'',
           r_reply_to = '''', r_community = ''town'', row_id = ''0''\<rparr>]
   \<and> reads_as ''1  Alice  First'' (Some ''1'', ''Alice'', ''First'')
   \<and> \<not> ends_body ''1  Alice  First''"
  by code_simp

subsection \<open>C8: the rows 0, 1, 1.1 and 1.1.1 of a day\<close>



text \<open>The same rows through \<open>parse_schedule_text\<close>, with a table header in the outline.\<close>

lemma nested_outline_parsed:
  "map (\<lambda>r. (row_id r, r_time r, r_reply_to r, r_kind r))
     (projr (parse_schedule_text january nested_outline ''town'')) =
       [(''0'', ''10:00'', '''', ''self''), (''1'', ''10:05'', ''0'', ''comment''),
        (''1.1'', ''10:10'', ''1'', ''comment''), (''1.1.1'', ''10:15'', ''1.1'', ''comment'')]"
  by code_simp

subsection \<open>C9: comments with an empty body are dropped\<close>

text \<open>
  C9. Every row that \<open>parse_schedule_text\<close> returns with kind comment has a body that
  is not empty, for every outline, calendar and community. A recognised comment row whose
  body is empty after placeholder stripping and trimming appends no row; a recognised
  self row always appends a row, whose body is the cleaned content, empty or not.
\<close>

theorem empty_comment_dropped:
  "(parse_schedule_text cal text_content slug = Inr rs \<and> r \<in> set rs \<and> r_kind r = ''comment'' \<longrightarrow> r_body r \<noteq> [])
   \<and> (kind_of (row_id_of g1) = ''comment'' \<and> clean (joined_content g3 k) = [] \<longrightarrow>
        out_rows (handle_row slug st (g1, g2, g3) k) = out_rows st)
   \<and> (kind_of (row_id_of g1) = ''self'' \<longrightarrow>
        (\<exists>row. out_rows (handle_row slug st (g1, g2, g3) k) = out_rows st @ [row]
              \<and> r_kind row = ''self'' \<and> r_body row = clean (joined_content g3 k)))"
proof -
  have "parse_schedule_text cal text_content slug = Inr rs \<Longrightarrow> r \<in> set rs \<Longrightarrow> r_kind r = ''comment'' \<Longrightarrow> r_body r \<noteq> []"
  proof -
    assume p: "parse_schedule_text cal text_content slug = Inr rs" and m: "r \<in> set rs" and c: "r_kind r = ''comment''"
    let ?st = "\<lparr>current_title = '''', current_date = start cal, minute_offset = 0, out_rows = []\<rparr>"
    from p obtain st' where r: "parse_lines cal slug ?st (split_on CHR 0x0A (strip text_content)) = Inr st'"
      and rs: "rs = out_rows st'"
      by (auto simp: parse_schedule_text_def split: sum.splits)
    have "comments_have_body (out_rows ?st)" by (simp add: comments_have_body_def)
    from parse_lines_keeps [OF r this] rs m c show ?thesis by (simp add: comments_have_body_def)
  qed
  then show ?thesis by (auto simp: handle_row_rows)
qed

theorem empty_comment_dropped_witness:
  "parse_schedule_text january placeholder_outline ''town'' =
     Inr [\<lparr>r_datetime = ''2024-01-01'', r_time = ''10:00'', r_account = ''Researchers'',
           r_title = ''Title'', r_body = ''Hello'', r_kind = ''self'', r_reply_to = '''',
           r_community = ''town'', row_id = ''0''\<rparr>,
          \<lparr>r_datetime = ''2024-01-01'', r_time = ''10:10'', r_account = ''Bob'',
           r_title = '''', r_body = ''Second'', r_kind = ''comment'', r_reply_to = ''0'',
           r_community = ''town'', row_id = ''2''\<rparr>]
   \<and> parse_schedule_text january empty_thread_outline ''town'' =
     Inr [\<lparr>r_datetime = ''2024-01-01'', r_time = ''10:00'', r_account = ''Researchers'',
           r_title = ''Title'', r_body = '''', r_kind = ''self'', r_reply_to = '''',
           r_community = ''town'', row_id = ''0''\<rparr>]
   \<and> kind_of (row_id_of (Some ''1'')) = ''comment''
   \<and> clean (joined_content ''/LLM generated sentence/'' []) = []
   \<and> out_rows (handle_row ''town'' fresh (Some ''1'', ''Alice'', ''/LLM generated sentence/'') []) = []
   \<and> kind_of (row_id_of (Some ''0'')) = ''self''
   \<and> length (out_rows (handle_row ''town'' fresh (Some ''0'', ''Researchers'', ''/LLM generated sentence/'') [])) = 1"
proof -
  have a: "parse_schedule_text january placeholder_outline ''town'' =
     Inr [\<lparr>r_datetime = ''2024-01-01'', r_time = ''10:00'', r_account = ''Researchers'',
           r_title = ''Title'', r_body = ''Hello'', r_kind = ''self'', r_reply_to = '''',
           r_community = ''town'', row_id = ''0''\<rparr>,
          \<lparr>r_datetime = ''2024-01-01'', r_time = ''10:10'', r_account = ''Bob'',
           r_title = '''', r_body = ''Second'', r_kind = ''comment'', r_reply_to = ''0'',
           r_community = ''town'', row_id = ''2''\<rparr>]"
    by code_simp
  have b: "parse_schedule_text january empty_thread_outline ''town'' =
     Inr [\<lparr>r_datetime = ''2024-01-01'', r_time = ''10:00'', r_account = ''Researchers'',
           r_title = ''Title'', r_body = '''', r_kind = ''self'', r_reply_to = '''',
           r_community = ''town'', row_id = ''0''\<rparr>]"
    by code_simp
  have c: "kind_of (row_id_of (Some ''1'')) = ''comment''" by code_simp
  have d: "clean (joined_content ''/LLM generated sentence/'' []) = []" by code_simp
  have e: "kind_of (row_id_of (Some ''0'')) = ''self''" by code_simp
  have f: "out_rows fresh = []" by (simp add: fresh_def)
  note T = empty_comment_dropped [of january placeholder_outline "''town''" "[]" "hd []" "Some ''1''"
      "''/LLM generated sentence/''" "[]" fresh "''Alice''"]
  from T c d f
  have 1: "out_rows (handle_row ''town'' fresh (Some ''1'', ''Alice'', ''/LLM generated sentence/'') []) = []"
    by simp
  note U = empty_comment_dropped [of january placeholder_outline "''town''" "[]" "hd []" "Some ''0''"
      "''/LLM generated sentence/''" "[]" fresh "''Researchers''"]
  from U e f
  have 2: "length (out_rows (handle_row ''town'' fresh (Some ''0'', ''Researchers'', ''/LLM generated sentence/'') [])) = 1"
    by auto
  from a b c d e 1 2 show ?thesis by blast
qed

subsection \<open>C10: the time counter counts dropped rows\<close>

text \<open>
  C10. Handling a recognised content row advances the counter by 5 minutes whether the
  row is appended or dropped. Hence the times of the rows that \<open>parse_schedule_text\<close>
  returns are 10:00 plus 5 minutes times the position of each row among all recognised
  rows since the last day header, as \<open>slots\<close> counts them, dropped rows included. In the
  example that follows the row \<open>1\<close> is dropped, and the two emitted rows are 10 minutes
  apart.
\<close>

theorem counter_counts_dropped_rows:
  "minute_offset (handle_row slug st groups k) = minute_offset st + 5
   \<and> (parse_schedule_text cal text_content slug = Inr rs \<longrightarrow>
        map r_time rs = map (\<lambda>k. time_str (5 * k)) (slots 0 (split_on CHR 0x0A (strip text_content))))"
proof -
  have "parse_schedule_text cal text_content slug = Inr rs \<Longrightarrow>
        map r_time rs = map (\<lambda>k. time_str (5 * k)) (slots 0 (split_on CHR 0x0A (strip text_content)))"
  proof -
    assume p: "parse_schedule_text cal text_content slug = Inr rs"
    let ?st = "\<lparr>current_title = '''', current_date = start cal, minute_offset = 0, out_rows = []\<rparr>"
    from p obtain st' where r: "parse_lines cal slug ?st (split_on CHR 0x0A (strip text_content)) = Inr st'"
      and rs: "rs = out_rows st'"
      by (auto simp: parse_schedule_text_def split: sum.splits)
    from parse_lines_times [OF r, of 0] rs show ?thesis by auto
  qed
  then show ?thesis by (simp add: handle_row_offset)
qed

theorem counter_counts_dropped_rows_witness:
  "parse_schedule_text january placeholder_outline ''town'' =
     Inr [\<lparr>r_datetime = ''2024-01-01'', r_time = ''10:00'', r_account = ''Researchers'',
           r_title = ''Title'', r_body = ''Hello'', r_kind = ''self'', r_reply_to = '''',
           r_community = ''town'', row_id = ''0''\<rparr>,
          \<lparr>r_datetime = ''2024-01-01'', r_time = ''10:10'', r_account = ''Bob'',
           r_title = '''', r_body = ''Second'', r_kind = ''comment'', r_reply_to = ''0'',
           r_community = ''town'', row_id = ''2''\<rparr>]
   \<and> map (\<lambda>k. time_str (5 * k)) (slots 0 (split_on CHR 0x0A (strip placeholder_outline)))
       = [''10:00'', ''10:10'']
   \<and> slots 0 (split_on CHR 0x0A (strip placeholder_outline)) = [0, 2]"
proof -
  let ?rs = "[\<lparr>r_datetime = ''2024-01-01'', r_time = ''10:00'', r_account = ''Researchers'',
           r_title = ''Title'', r_body = ''Hello'', r_kind = ''self'', r_reply_to = '''',
           r_community = ''town'', row_id = ''0''\<rparr>,
          \<lparr>r_datetime = ''2024-01-01'', r_time = ''10:10'', r_account = ''Bob'',
           r_title = '''', r_body = ''Second'', r_kind = ''comment'', r_reply_to = ''0'',
           r_community = ''town'', row_id = ''2''\<rparr>]"
  have a: "parse_schedule_text january placeholder_outline ''town'' = Inr ?rs"
    by code_simp
  have b: "slots 0 (split_on CHR 0x0A (strip placeholder_outline)) = [0, 2]" by code_simp
  from counter_counts_dropped_rows [where slug = "''town''" and st = fresh and groups = "(None, [], [])"
      and k = "[]" and cal = january and text_content = placeholder_outline and rs = "?rs"] a
  have "map r_time ?rs = map (\<lambda>k. time_str (5 * k)) (slots 0 (split_on CHR 0x0A (strip placeholder_outline)))"
    by blast
  then have "map (\<lambda>k. time_str (5 * k)) (slots 0 (split_on CHR 0x0A (strip placeholder_outline)))
       = [''10:00'', ''10:10'']"
    by simp
  with a b show ?thesis by blast
qed

end
